theory Spec2Isabelle
  imports Complex_Main "HOL-Library.Word" "HOL-Library.Multiset"
begin

unbundle bit_operations_syntax

section \<open>Python values used by the ping client\<close>

text \<open>
  The client is the class \<open>PingClient\<close> of \<open>ping_client.py\<close>. Python integers are
  unbounded and are modelled as \<^typ>\<open>int\<close>; the elements of a \<open>bytes\<close> or
  \<open>bytearray\<close> object are modelled as \<^typ>\<open>8 word\<close>. The exceptions the code can
  raise are values of \<open>error\<close>; a function that can raise returns \<open>error + 'a\<close>.
\<close>

datatype error = OverflowError | ZeroDivisionError | ValueError | OSError

type_synonym byte = "8 word"

text \<open>
  \<open>x.to_bytes(n, byteorder='big')\<close>: the \<open>n\<close> base-256 digits of \<open>x\<close>, most
  significant first. Python raises \<open>OverflowError\<close> for a negative \<open>x\<close> and for an
  \<open>x\<close> that does not fit in \<open>n\<close> bytes.
\<close>

fun be_digits :: "nat \<Rightarrow> int \<Rightarrow> byte list" where
  "be_digits 0 x = []"
| "be_digits (Suc n) x = be_digits n (x div 256) @ [word_of_int (x mod 256)]"

definition to_bytes :: "int \<Rightarrow> nat \<Rightarrow> error + byte list" where
  "to_bytes x n = (if x < 0 \<or> 256 ^ n \<le> x then Inl OverflowError else Inr (be_digits n x))"

text \<open>\<open>int.from_bytes(bs, byteorder='big')\<close>; the empty string gives 0.\<close>

definition from_bytes :: "byte list \<Rightarrow> int" where
  "from_bytes bs = foldl (\<lambda>acc b. acc * 256 + uint b) 0 bs"

section \<open>Message codec\<close>

text \<open>
  \<open>calculate_checksum\<close>: the loop \<open>for i in range(0, len(message)-1, 2)\<close> visits the
  pairs \<open>(message[i], message[i+1])\<close>; a trailing byte of an odd-length message is
  not visited. In \<open>w = (message[i]) + (message[i + 1] << 8) << 8\<close> Python's \<open>+\<close> binds
  tighter than \<open><<\<close>, so the sum is shifted as a whole. The accumulator is folded
  once per step: \<open>s = ((w + s) & 0xffff) + ((w + s) >> 16)\<close>.
\<close>

fun checksum_loop :: "int \<Rightarrow> byte list \<Rightarrow> int" where
  "checksum_loop s (b0 # b1 # rest) =
     (let w = push_bit 8 (uint b0 + push_bit 8 (uint b1))
      in checksum_loop (((w + s) AND 0xffff) + drop_bit 16 (w + s)) rest)"
| "checksum_loop s rest = s"

definition calculate_checksum :: "byte list \<Rightarrow> int" where
  "calculate_checksum message = checksum_loop 0 message"

definition bit_flip :: "int \<Rightarrow> int" where
  "bit_flip checksum = 0xffff - checksum"

text \<open>
  \<open>build_message\<close>. The two values the method reads from its environment are
  parameters: \<open>pid\<close> is \<open>os.getpid()\<close> and \<open>now_ms\<close> is \<open>int(time.time() * 1000)\<close>.
  Every \<open>to_bytes\<close> call can raise, in the order of the source.
\<close>

definition build_message :: "int \<Rightarrow> int \<Rightarrow> int \<Rightarrow> error + byte list" where
  "build_message pid now_ms seq_num =
     (let msg_type = (8 :: byte) in
      case to_bytes (pid mod 65536) 2 of Inl e \<Rightarrow> Inl e | Inr identifier \<Rightarrow>
     (case to_bytes 0 2 of Inl e \<Rightarrow> Inl e | Inr checksum0 \<Rightarrow>
     (case to_bytes seq_num 2 of Inl e \<Rightarrow> Inl e | Inr seq_bytes \<Rightarrow>
     (case to_bytes now_ms 6 of Inl e \<Rightarrow> Inl e | Inr timestamp \<Rightarrow>
        (let msg = [msg_type, 0] @ checksum0 @ identifier @ seq_bytes @ timestamp;
             checksum = calculate_checksum msg
         in (case to_bytes (bit_flip checksum) 2 of
               Inl e \<Rightarrow> Inl e
             | Inr checksum_bytes \<Rightarrow>
                 Inr ([msg_type, 0] @ checksum_bytes @ identifier @ seq_bytes @ timestamp)))))))"

section \<open>Numbers as Python prints and rounds them\<close>

text \<open>\<open>str(n)\<close> for an integer: decimal digits, with a minus sign when negative.\<close>

fun str_nat :: "nat \<Rightarrow> string" where
  "str_nat n =
     (if n < 10 then [''0123456789'' ! n] else str_nat (n div 10) @ [''0123456789'' ! (n mod 10)])"

declare str_nat.simps [simp del]

definition str_int :: "int \<Rightarrow> string" where
  "str_int i = (if i < 0 then ''-'' @ str_nat (nat (- i)) else str_nat (nat i))"

text \<open>
  The clock values (\<open>time.time() * 1000\<close>) and the quotients of \<open>/\<close> are Python floats;
  they are modelled as exact rationals, so floating-point rounding error is outside the
  model. \<open>round(x)\<close> rounds to the nearest integer, a tie going to the even neighbour;
  \<open>int(x)\<close> truncates towards zero.
\<close>

definition py_round :: "rat \<Rightarrow> int" where
  "py_round x =
     (let f = \<lfloor>x\<rfloor>; d = x - of_int f
      in if d < 1 / 2 then f else if 1 / 2 < d then f + 1 else if even f then f else f + 1)"

definition py_int :: "rat \<Rightarrow> int" where
  "py_int x = (if 0 \<le> x then \<lfloor>x\<rfloor> else \<lceil>x\<rceil>)"

text \<open>\<open>min(xs)\<close> and \<open>max(xs)\<close> raise \<open>ValueError\<close> on an empty list.\<close>

definition py_min :: "int list \<Rightarrow> error + int" where
  "py_min xs = (case xs of [] \<Rightarrow> Inl ValueError | x # rest \<Rightarrow> Inr (fold min rest x))"

definition py_max :: "int list \<Rightarrow> error + int" where
  "py_max xs = (case xs of [] \<Rightarrow> Inl ValueError | x # rest \<Rightarrow> Inr (fold max rest x))"

section \<open>The client object\<close>

text \<open>
  A thread object of \<open>thread_list\<close>: \<open>threading.Thread(target=self.send_ping,
  args=[seq_num])\<close> or \<open>threading.Timer(interval, function=self.send_ping,
  args=[seq_num])\<close>. A started \<open>Thread\<close> calls its target at once; a started \<open>Timer\<close>
  calls it \<open>interval\<close> seconds after its own \<open>start()\<close>.
\<close>

datatype thread = Thread int | Timer rat int

fun thread_arg :: "thread \<Rightarrow> int" where
  "thread_arg (Thread seq_num) = seq_num"
| "thread_arg (Timer interval seq_num) = seq_num"

fun thread_delay :: "thread \<Rightarrow> rat" where
  "thread_delay (Thread seq_num) = 0"
| "thread_delay (Timer interval seq_num) = interval"

text \<open>
  The fields of \<open>PingClient\<close>, and \<open>console\<close>: the lines printed so far, oldest first.
\<close>

record ping_client =
  server_ip :: string
  server_port :: int
  count :: int
  period :: rat
  timeout :: rat
  total_start :: rat
  total_end :: rat
  request_count :: int
  reply_count :: int
  rtt_list :: "int list"
  thread_list :: "thread list"
  console :: "string list"

text \<open>
  \<open>__init__\<close>, after the \<open>int(...)\<close> conversions of the command-line strings (a
  string that is not a number is a failure before any client exists). Period and
  timeout are given in milliseconds and stored in seconds.
\<close>

definition init :: "string \<Rightarrow> int \<Rightarrow> int \<Rightarrow> int \<Rightarrow> int \<Rightarrow> ping_client" where
  "init ip port cnt period_ms timeout_ms =
     \<lparr>server_ip = ip, server_port = port, count = cnt,
      period = of_int period_ms / 1000, timeout = of_int timeout_ms / 1000,
      total_start = 0, total_end = 0, request_count = 0, reply_count = 0,
      rtt_list = [], thread_list = [], console = []\<rparr>"

section \<open>Statistics reporter\<close>

text \<open>
  \<open>summary_statistics\<close>. The loss percentage divides by \<open>request_count\<close> before
  anything else can fail; the RTT line aggregates \<open>rtt_list\<close> only when
  \<open>reply_count\<close> is not zero.
\<close>

definition summary_statistics :: "ping_client \<Rightarrow> error + string" where
  "summary_statistics c =
     (let display_str = ''--- '' @ server_ip c @ '' ping statistics ---'' @ [CHR 0x0A];
          transmitted = str_int (request_count c);
          received = str_int (reply_count c)
      in if request_count c = 0 then Inl ZeroDivisionError
         else
           let loss = str_int (py_round
                  ((1 - of_int (reply_count c) / of_int (request_count c)) * 100));
               total_time = str_int (py_round (total_end c - total_start c));
               display_str = display_str @ transmitted @ '' transmitted, '' @ received
                  @ '' received, '' @ loss @ ''% loss, time '' @ total_time @ '' ms''
                  @ [CHR 0x0A]
           in if reply_count c \<noteq> 0 then
                (case py_min (rtt_list c) of
                   Inl e \<Rightarrow> Inl e
                 | Inr lo \<Rightarrow>
                     (if length (rtt_list c) = 0 then Inl ZeroDivisionError
                      else
                        (let rtt_min = str_int lo;
                             rtt_avg = str_int (py_round
                               (of_int (sum_list (rtt_list c)) / of_nat (length (rtt_list c))))
                         in (case py_max (rtt_list c) of
                               Inl e \<Rightarrow> Inl e
                             | Inr hi \<Rightarrow>
                                 Inr (display_str @ ''rtt min/avg/max = '' @ rtt_min @ ''/''
                                      @ rtt_avg @ ''/'' @ str_int hi @ '' ms'')))))
              else Inr (display_str @ ''rtt min/avg/max = 0/0/0 ms''))"

section \<open>Probe executor\<close>

text \<open>
  What a socket call does: it returns a value, raises \<open>socket.timeout\<close>, or raises
  another \<open>OSError\<close> (the constructor \<open>OSError\<close> of \<open>error\<close> stands for those).
\<close>

datatype 'a io = Returned 'a | RaisedTimeout | RaisedOSError

text \<open>
  Everything one call of \<open>send_ping\<close> reads from outside the object:
  \<^item> \<open>bind_ok\<close>: creating the socket, resolving the host name, \<open>bind\<close> and
    \<open>settimeout\<close> all succeed (they stand before the \<open>try\<close>);
  \<^item> \<open>pid\<close>, \<open>now_ms\<close>: what \<open>build_message\<close> reads;
  \<^item> \<open>start_time\<close>, \<open>end_time\<close>: the two clock readings, in milliseconds;
  \<^item> \<open>sendto\<close>, \<open>recvfrom\<close>: what the two socket calls do; \<open>recvfrom\<close> returns the
    datagram's bytes.
\<close>

record probe_env =
  bind_ok :: bool
  pid :: int
  now_ms :: int
  start_time :: rat
  end_time :: rat
  sendto :: "unit io"
  recvfrom :: "byte list io"

text \<open>
  How a call of \<open>send_ping\<close> ended: in one of the three ends of the probe (a reply
  with a valid checksum, a reply with an invalid one, a timeout), or with an exception
  that leaves the method.
\<close>

datatype outcome = Replied | ChecksumInvalid | TimedOut | Raised error

text \<open>
  \<open>send_ping\<close>. Only \<open>socket.timeout\<close> has a handler; \<open>build_message\<close> is called
  inside the \<open>try\<close>, and its \<open>OverflowError\<close> has none. \<open>data[6:8]\<close> is a slice, so
  a short datagram gives a short (possibly empty) string and no error.
\<close>

definition send_ping :: "ping_client \<Rightarrow> int \<Rightarrow> probe_env \<Rightarrow> ping_client \<times> outcome" where
  "send_ping c seq_num env =
     (if \<not> bind_ok env then (c, Raised OSError)
      else
        let c = (if seq_num = 1 then c\<lparr>console := console c @ [''PING '' @ server_ip c]\<rparr>
                 else c)
        in case build_message (pid env) (now_ms env) seq_num of
             Inl e \<Rightarrow> (c, Raised e)
           | Inr request_msg \<Rightarrow>
              (case sendto env of
                 RaisedOSError \<Rightarrow> (c, Raised OSError)
               | RaisedTimeout \<Rightarrow> (c\<lparr>request_count := request_count c + 1\<rparr>, TimedOut)
               | Returned u \<Rightarrow>
                  (case recvfrom env of
                     RaisedOSError \<Rightarrow> (c, Raised OSError)
                   | RaisedTimeout \<Rightarrow> (c\<lparr>request_count := request_count c + 1\<rparr>, TimedOut)
                   | Returned data \<Rightarrow>
                       let rtt = py_int (end_time env - start_time env);
                           c = c\<lparr>rtt_list := rtt_list c @ [rtt]\<rparr>;
                           c = c\<lparr>request_count := request_count c + 1\<rparr>;
                           server_checksum = calculate_checksum data;
                           server_seq_num = from_bytes (take 2 (drop 6 data))
                       in if server_checksum \<noteq> 65535 then
                            (c\<lparr>console := console c @
                               [''WARNING: checksum verification failure for echo reply seqno=''
                                @ str_int server_seq_num]\<rparr>, ChecksumInvalid)
                          else
                            (c\<lparr>console := console c @
                               [''PONG '' @ server_ip c @ '': seq='' @ str_int server_seq_num
                                @ '' time='' @ str_int rtt @ '' ms''],
                              reply_count := reply_count c + 1\<rparr>, Replied))))"

section \<open>Probe scheduler\<close>

text \<open>
  \<open>run\<close>, in three parts. \<open>start_threads\<close> is the part that creates and starts the
  thread objects: the first probe's \<open>Thread\<close>, then one \<open>Timer\<close> per pass of
  \<open>for i in range(self.count - 1)\<close>, each with \<open>interval=self.period\<close>.
\<close>

fun timer_loop :: "nat \<Rightarrow> ping_client \<Rightarrow> int \<Rightarrow> ping_client" where
  "timer_loop 0 c seq_num = c"
| "timer_loop (Suc n) c seq_num =
     timer_loop n (c\<lparr>thread_list := thread_list c @ [Timer (period c) seq_num]\<rparr>) (seq_num + 1)"

definition start_threads :: "ping_client \<Rightarrow> rat \<Rightarrow> ping_client" where
  "start_threads c t0 =
     (let c = c\<lparr>total_start := t0\<rparr>;
          seq_num = 1;
          c = c\<lparr>thread_list := thread_list c @ [Thread seq_num]\<rparr>;
          seq_num = seq_num + 1
      in timer_loop (nat (count c - 1)) c seq_num)"

text \<open>
  A thread runs \<open>send_ping\<close> on its argument; an exception that leaves the target
  ends that thread only (\<open>threading\<close> reports it and the other threads go on), so
  the thread keeps the state and drops the outcome. \<open>envs\<close> gives each sequence
  number its environment.
\<close>

definition thread_body :: "(int \<Rightarrow> probe_env) \<Rightarrow> ping_client \<Rightarrow> thread \<Rightarrow> ping_client" where
  "thread_body envs c t = fst (send_ping c (thread_arg t) (envs (thread_arg t)))"

text \<open>
  The threads run concurrently, so their effects on the shared counters, on \<open>rtt_list\<close>
  and on the console come in the order in which the probes complete, not in the order
  in which they were started. \<open>done_at\<close> gives the instant at which a thread's call of
  \<open>send_ping\<close> completes; the bodies take effect in the order of these instants (threads
  with the same instant in the order of \<open>thread_list\<close>), each body as a whole:
  interleavings within a body are outside the model.

  The threads are joined only when \<open>len(self.thread_list) == self.count\<close>; otherwise
  the summary is taken at once, and \<open>finished\<close> says which threads happened to have
  ended by then.
\<close>

definition join_threads ::
  "ping_client \<Rightarrow> (int \<Rightarrow> probe_env) \<Rightarrow> (thread \<Rightarrow> bool) \<Rightarrow> (thread \<Rightarrow> rat) \<Rightarrow> ping_client" where
  "join_threads c envs finished done_at =
     (if int (length (thread_list c)) = count c
      then foldl (thread_body envs) c (sort_key done_at (thread_list c))
      else foldl (thread_body envs) c (sort_key done_at (filter finished (thread_list c))))"

text \<open>
  \<open>run\<close>: \<open>t0\<close> and \<open>t1\<close> are the two readings of the clock. The summary is
  printed, or \<open>summary_statistics\<close> raises.
\<close>

definition run ::
  "ping_client \<Rightarrow> rat \<Rightarrow> rat \<Rightarrow> (int \<Rightarrow> probe_env) \<Rightarrow> (thread \<Rightarrow> bool) \<Rightarrow> (thread \<Rightarrow> rat)
     \<Rightarrow> ping_client \<times> error option" where
  "run c t0 t1 envs finished done_at =
     (let c = start_threads c t0;
          c = join_threads c envs finished done_at;
          c = c\<lparr>total_end := t1\<rparr>
      in case summary_statistics c of
           Inl e \<Rightarrow> (c, Some e)
         | Inr s \<Rightarrow> (c\<lparr>console := console c @ [s]\<rparr>, None))"

section \<open>Notions used to state the properties\<close>

text \<open>
  The reference one's-complement checksum, as the specification words it: the sum of
  the 16-bit big-endian words (word \<open>i\<close> is \<open>bytes[2i] * 256 + bytes[2i+1]\<close>), any
  carry beyond 16 bits folded back into the low 16 bits, the fold repeated until no
  carry remains.
\<close>

fun be_words :: "byte list \<Rightarrow> int list" where
  "be_words (b0 # b1 # rest) = (uint b0 * 256 + uint b1) # be_words rest"
| "be_words rest = []"

function fold_carry :: "int \<Rightarrow> int" where
  "fold_carry x = (if 0xffff < x then fold_carry ((x AND 0xffff) + drop_bit 16 x) else x)"
  by pat_completeness auto
termination
proof (relation "measure nat")
  show "wf (measure nat)" by simp
next
  fix x :: int
  assume big: "0xffff < x"
  have "(0xffff::int) = mask 16"
    by (simp add: mask_eq_exp_minus_1)
  then have "x AND 0xffff = take_bit 16 x"
    by (simp add: take_bit_eq_mask)
  then have low: "x AND 0xffff = x mod 65536"
    by (simp add: take_bit_eq_mod)
  have high: "drop_bit 16 x = x div 65536"
    by (simp add: drop_bit_eq_div)
  have "(x AND 0xffff) + drop_bit 16 x < x"
    using big unfolding low high by presburger
  then show "((x AND 0xffff) + drop_bit 16 x, x) \<in> measure nat"
    using big by simp
qed

declare fold_carry.simps [simp del]

definition reference_checksum :: "byte list \<Rightarrow> int" where
  "reference_checksum bs = fold_carry (sum_list (be_words bs))"

text \<open>
  The outcome of a probe depends on its sequence number and its environment only, not
  on the client's state (lemma \<open>snd_send_ping\<close> below), so it can be read off a
  fresh client.
\<close>

definition outcome_of :: "int \<Rightarrow> probe_env \<Rightarrow> outcome" where
  "outcome_of seq_num env = snd (send_ping (init [] 0 0 0 0) seq_num env)"

text \<open>The three ends of a probe, as opposed to an exception leaving \<open>send_ping\<close>.\<close>

fun terminal :: "outcome \<Rightarrow> bool" where
  "terminal (Raised e) = False"
| "terminal out = True"

text \<open>A datagram came back within the deadline, whatever its checksum.\<close>

fun got_reply :: "outcome \<Rightarrow> bool" where
  "got_reply Replied = True"
| "got_reply ChecksumInvalid = True"
| "got_reply out = False"

text \<open>The round-trip time \<open>send_ping\<close> computes: \<open>int(end_time - start_time)\<close>.\<close>

definition measured_rtt :: "probe_env \<Rightarrow> int" where
  "measured_rtt env = py_int (end_time env - start_time env)"

text \<open>
  The round-trip times of the probes \<open>1..N\<close> that got a datagram back in time,
  listed by sequence number. \<open>rtt_list\<close> holds them in the order of completion.
\<close>

definition in_time_rtts :: "(int \<Rightarrow> probe_env) \<Rightarrow> int \<Rightarrow> int list" where
  "in_time_rtts envs N =
     map (\<lambda>k. measured_rtt (envs k)) (filter (\<lambda>k. got_reply (outcome_of k (envs k))) [1..N])"

text \<open>
  One pass of the checksum loop in arithmetic: the value \<open>w\<close> of a byte pair, and the
  single fold of the accumulator.
\<close>

definition word_of :: "byte \<Rightarrow> byte \<Rightarrow> int" where
  "word_of b0 b1 = (uint b0 + uint b1 * 256) * 256"

definition fold_once :: "int \<Rightarrow> int" where
  "fold_once t = t mod 65536 + t div 65536"

section \<open>Sample environments\<close>

text \<open>
  Concrete probes on which the results below are instantiated. \<open>example_env\<close> is a
  probe whose request goes out and whose reply never comes. In \<open>example_envs\<close> probe 1
  gets its own request echoed back after 12 ms, probe 2 gets its request back after
  40.5 ms with the last byte changed, and every later probe times out. In
  \<open>failing_envs\<close> the endpoint of probe 1 cannot be set up and every later probe
  times out. In \<open>overlap_envs\<close> probe 1 gets its valid reply after 500 ms, while
  probe 2, sent 250 ms after probe 1, gets a reply with a changed byte after 7 ms, so
  that probe 2 completes first (\<open>overlap_done_at\<close>, in milliseconds from the start).
\<close>

definition example_env :: probe_env where
  "example_env =
     \<lparr>bind_ok = True, pid = 4321, now_ms = 1700000000000,
      start_time = 1700000000000, end_time = 1700000000012,
      sendto = Returned (), recvfrom = RaisedTimeout\<rparr>"

definition example_envs :: "int \<Rightarrow> probe_env" where
  "example_envs k =
     (if k = 1 then
        example_env\<lparr>recvfrom := Returned [8, 0, 173, 172, 16, 225, 0, 1, 1, 139, 207, 229, 104, 0]\<rparr>
      else if k = 2 then
        example_env\<lparr>end_time := 1700000000040 + 1 / 2,
          recvfrom := Returned [8, 0, 173, 171, 16, 225, 0, 2, 1, 139, 207, 229, 104, 1]\<rparr>
      else example_env)"

definition failing_envs :: "int \<Rightarrow> probe_env" where
  "failing_envs k = (if k = 1 then example_env\<lparr>bind_ok := False\<rparr> else example_env)"

definition overlap_envs :: "int \<Rightarrow> probe_env" where
  "overlap_envs k =
     (if k = 1 then
        example_env\<lparr>end_time := 1700000000500,
          recvfrom := Returned [8, 0, 173, 172, 16, 225, 0, 1, 1, 139, 207, 229, 104, 0]\<rparr>
      else
        example_env\<lparr>start_time := 1700000000250, end_time := 1700000000257,
          recvfrom := Returned [8, 0, 173, 171, 16, 225, 0, 2, 1, 139, 207, 229, 104, 1]\<rparr>)"

definition overlap_done_at :: "thread \<Rightarrow> rat" where
  "overlap_done_at t = (if thread_arg t = 1 then 500 else 257)"

section \<open>Arithmetic of the checksum loop\<close>

lemma and_ffff: "(x::int) AND 0xffff = x mod 65536"
proof -
  have "(0xffff::int) = mask 16" by (simp add: mask_eq_exp_minus_1)
  then have "x AND 0xffff = take_bit 16 x" by (simp add: take_bit_eq_mask)
  then show ?thesis by (simp add: take_bit_eq_mod)
qed

lemma drop_bit_16: "drop_bit 16 (x::int) = x div 65536"
  by (simp add: drop_bit_eq_div)

lemma push_bit_8: "push_bit 8 (x::int) = x * 256"
  by (simp add: push_bit_eq_mult)

lemma checksum_loop_step:
  "checksum_loop s (b0 # b1 # rest) = checksum_loop (fold_once (word_of b0 b1 + s)) rest"
  by (simp add: Let_def and_ffff drop_bit_16 push_bit_8 fold_once_def word_of_def)

lemma uint_byte: "0 \<le> uint (b::byte)" "uint (b::byte) \<le> 255"
proof -
  show "0 \<le> uint b" by simp
  have "uint b < 2 ^ 8" using uint_bounded [of b] by simp
  then show "uint b \<le> 255" by simp
qed

lemma word_of_bounds: "0 \<le> word_of b0 b1" "word_of b0 b1 \<le> 16776960"
  using uint_byte [of b0] uint_byte [of b1] by (simp_all add: word_of_def)

lemma fold_once_alt: "fold_once t = t - 65535 * (t div 65536)"
proof -
  have "t = 65536 * (t div 65536) + t mod 65536" by simp
  then show ?thesis unfolding fold_once_def by linarith
qed

lemma fold_once_mod: "fold_once t mod 65535 = t mod 65535"
proof -
  have "(t - 65535 * (t div 65536)) mod 65535 = t mod 65535"
    by (rule mod_diff_eq [symmetric, THEN trans]) simp
  then show ?thesis by (simp only: fold_once_alt)
qed

lemma fold_once_bounds:
  assumes "0 \<le> t" "t \<le> 16842750"
  shows "0 \<le> fold_once t \<and> fold_once t \<le> 65790"
proof -
  define q where "q = t div 65536"
  define r where "r = t mod 65536"
  have t: "t = 65536 * q + r" by (simp add: q_def r_def)
  have r: "0 \<le> r" "r < 65536" by (simp_all add: r_def)
  have q0: "0 \<le> q" using assms(1) by (simp add: q_def pos_imp_zdiv_nonneg_iff)
  have f: "fold_once t = r + q" by (simp add: fold_once_def q_def r_def)
  show ?thesis
  proof (cases "q \<le> 255")
    case True
    then show ?thesis using r q0 f by linarith
  next
    case False
    then show ?thesis using r q0 f t assms(2) by linarith
  qed
qed

lemma fold_once_pos:
  assumes "0 < t"
  shows "0 < fold_once t"
proof -
  define q where "q = t div 65536"
  define r where "r = t mod 65536"
  have t: "t = 65536 * q + r" by (simp add: q_def r_def)
  have r: "0 \<le> r" "r < 65536" by (simp_all add: r_def)
  have q0: "0 \<le> q" using assms by (simp add: q_def pos_imp_zdiv_nonneg_iff)
  have f: "fold_once t = r + q" by (simp add: fold_once_def q_def r_def)
  show ?thesis using t r q0 f assms by linarith
qed

text \<open>
  The loop keeps its accumulator between 0 and \<open>0x100FE\<close>, keeps it positive once it
  is, and preserves the sum of the big-endian words modulo \<open>0xFFFF\<close>.
\<close>

lemma word_of_mod: "word_of b0 b1 mod 65535 = (uint b0 * 256 + uint b1) mod 65535"
proof -
  have "word_of b0 b1 = (uint b0 * 256 + uint b1) + 65535 * uint b1"
    by (simp add: word_of_def algebra_simps)
  then have "word_of b0 b1 mod 65535 = ((uint b0 * 256 + uint b1) + 65535 * uint b1) mod 65535"
    by (simp only:)
  also have "\<dots> = (uint b0 * 256 + uint b1) mod 65535"
    by (rule mod_mult_self2)
  finally show ?thesis .
qed

lemma checksum_loop_bounds:
  "0 \<le> s \<Longrightarrow> s \<le> 65790 \<Longrightarrow> 0 \<le> checksum_loop s bs \<and> checksum_loop s bs \<le> 65790"
proof (induction bs arbitrary: s rule: be_words.induct)
  case (1 b0 b1 rest)
  have "0 \<le> word_of b0 b1 + s" "word_of b0 b1 + s \<le> 16842750"
    using word_of_bounds [of b0 b1] "1.prems" by linarith+
  then have "0 \<le> fold_once (word_of b0 b1 + s) \<and> fold_once (word_of b0 b1 + s) \<le> 65790"
    by (rule fold_once_bounds)
  then show ?case
    unfolding checksum_loop_step using "1.IH" by blast
qed simp_all

lemma checksum_loop_pos:
  "0 < s \<Longrightarrow> 0 < checksum_loop s bs"
proof (induction bs arbitrary: s rule: be_words.induct)
  case (1 b0 b1 rest)
  have "0 < word_of b0 b1 + s"
    using word_of_bounds(1) [of b0 b1] "1.prems" by linarith
  then have "0 < fold_once (word_of b0 b1 + s)"
    by (rule fold_once_pos)
  then show ?case
    unfolding checksum_loop_step by (rule "1.IH")
qed simp_all

lemma checksum_loop_mod:
  "checksum_loop s bs mod 65535 = (s + sum_list (be_words bs)) mod 65535"
proof (induction bs arbitrary: s rule: be_words.induct)
  case (1 b0 b1 rest)
  let ?w = "word_of b0 b1"
  let ?v = "uint b0 * 256 + uint b1"
  have "checksum_loop s (b0 # b1 # rest) mod 65535
          = (fold_once (?w + s) + sum_list (be_words rest)) mod 65535"
    unfolding checksum_loop_step by (rule "1.IH")
  also have "\<dots> = (fold_once (?w + s) mod 65535 + sum_list (be_words rest)) mod 65535"
    by (simp add: mod_add_left_eq)
  also have "\<dots> = ((?w + s) mod 65535 + sum_list (be_words rest)) mod 65535"
    by (simp only: fold_once_mod)
  also have "\<dots> = ((?w mod 65535 + s) mod 65535 + sum_list (be_words rest)) mod 65535"
    by (simp add: mod_add_left_eq)
  also have "\<dots> = ((?v mod 65535 + s) mod 65535 + sum_list (be_words rest)) mod 65535"
    by (simp only: word_of_mod)
  also have "\<dots> = (s + sum_list (be_words (b0 # b1 # rest))) mod 65535"
    by (simp add: mod_simps ac_simps)
  finally show ?case .
qed simp_all

lemma calculate_checksum_bounds:
  "0 \<le> calculate_checksum bs \<and> calculate_checksum bs \<le> 65790"
  unfolding calculate_checksum_def by (rule checksum_loop_bounds) simp_all

lemma calculate_checksum_mod:
  "calculate_checksum bs mod 65535 = sum_list (be_words bs) mod 65535"
  unfolding calculate_checksum_def by (simp add: checksum_loop_mod)

lemma be_words_field:
  assumes "0 \<le> c" "c < 65536"
  shows "be_words (be_digits 2 c @ rest) = c # be_words rest"
proof -
  have "be_digits 2 c = [word_of_int (c div 256 mod 256), word_of_int (c mod 256)]"
    by (simp add: numeral_2_eq_2)
  moreover have "uint (word_of_int (c div 256 mod 256) :: byte) = c div 256"
    using assms by (simp add: uint_word_of_int take_bit_eq_mod)
  moreover have "uint (word_of_int (c mod 256) :: byte) = c mod 256"
    by (simp add: uint_word_of_int take_bit_eq_mod)
  ultimately show ?thesis by simp
qed

lemma congruent_residues:
  fixes a b :: int
  assumes "0 \<le> a" "a \<le> 65535" "0 \<le> b" "b \<le> 65535"
    and "a mod 65535 = b mod 65535" and "(a = 0) = (b = 0)"
  shows "a = b"
proof -
  from assms(5) have "65535 dvd a - b"
    by (simp add: mod_eq_dvd_iff)
  then obtain k where k: "a - b = 65535 * k" ..
  show ?thesis
  proof (cases "a = 0")
    case True
    with assms(6) show ?thesis by simp
  next
    case False
    with assms(6) have "b \<noteq> 0" by simp
    with False assms(1-4) have "- 65535 < a - b" "a - b < 65535" by linarith+
    with k have "k = 0" by linarith
    with k show ?thesis by simp
  qed
qed

lemma length_be_digits: "length (be_digits n x) = n"
  by (induction n arbitrary: x) simp_all

lemma sum_be_words_nonneg: "0 \<le> sum_list (be_words bs)"
  by (induction bs rule: be_words.induct) simp_all

lemma fold_once_zero: "0 \<le> t \<Longrightarrow> (fold_once t = 0) = (t = 0)"
  using fold_once_pos [of t] by (cases "t = 0") (auto simp: fold_once_def)

lemma word_of_zero: "(word_of b0 b1 = 0) = (uint b0 * 256 + uint b1 = 0)"
proof -
  define a c where "a = uint b0" and "c = uint b1"
  have "0 \<le> a" "0 \<le> c" by (simp_all add: a_def c_def)
  then have "((a + c * 256) * 256 = 0) = (a * 256 + c = 0)" by (auto simp: algebra_simps)
  then show ?thesis unfolding word_of_def a_def c_def .
qed

lemma checksum_loop_zero:
  "0 \<le> s \<Longrightarrow> (checksum_loop s bs = 0) = (s + sum_list (be_words bs) = 0)"
proof (induction bs arbitrary: s rule: be_words.induct)
  case (1 b0 b1 rest)
  let ?w = "word_of b0 b1"
  let ?v = "uint b0 * 256 + uint b1"
  have w: "0 \<le> ?w" by (rule word_of_bounds)
  have v: "0 \<le> ?v" by simp
  have t: "0 \<le> ?w + s" using w "1.prems" by simp
  then have f: "0 \<le> fold_once (?w + s)"
    using fold_once_pos [of "?w + s"] by (cases "?w + s = 0") (auto simp: fold_once_def)
  have r: "0 \<le> sum_list (be_words rest)" by (rule sum_be_words_nonneg)
  have "(checksum_loop s (b0 # b1 # rest) = 0) = (fold_once (?w + s) + sum_list (be_words rest) = 0)"
    unfolding checksum_loop_step by (rule "1.IH" [OF f])
  also have "\<dots> = (fold_once (?w + s) = 0 \<and> sum_list (be_words rest) = 0)"
    using f r by linarith
  also have "\<dots> = (?w + s = 0 \<and> sum_list (be_words rest) = 0)"
    by (simp only: fold_once_zero [OF t])
  also have "\<dots> = (?w = 0 \<and> s = 0 \<and> sum_list (be_words rest) = 0)"
    using w "1.prems" by linarith
  also have "\<dots> = (?v = 0 \<and> s = 0 \<and> sum_list (be_words rest) = 0)"
    by (simp only: word_of_zero)
  also have "\<dots> = (s + (?v + sum_list (be_words rest)) = 0)"
    using v r "1.prems" by linarith
  also have "\<dots> = (s + sum_list (be_words (b0 # b1 # rest)) = 0)"
    by simp
  finally show ?case .
qed simp_all

lemma fold_carry_fold_once: "fold_carry x = (if 65535 < x then fold_carry (fold_once x) else x)"
  by (subst fold_carry.simps) (simp add: and_ffff drop_bit_16 fold_once_def)

lemma fold_carry_props:
  "0 \<le> x \<Longrightarrow> 0 \<le> fold_carry x \<and> fold_carry x \<le> 65535
     \<and> fold_carry x mod 65535 = x mod 65535 \<and> ((fold_carry x = 0) = (x = 0))"
proof (induction x rule: fold_carry.induct)
  case (1 x)
  show ?case
  proof (cases "65535 < x")
    case True
    have nn: "0 \<le> fold_once x"
      using fold_once_pos [of x] True by simp
    have "0 \<le> (x AND 0xffff) + drop_bit 16 x"
      using nn by (simp add: and_ffff drop_bit_16 fold_once_def)
    from "1.IH" [OF _ this] True
    have ih: "0 \<le> fold_carry (fold_once x) \<and> fold_carry (fold_once x) \<le> 65535
       \<and> fold_carry (fold_once x) mod 65535 = fold_once x mod 65535
       \<and> ((fold_carry (fold_once x) = 0) = (fold_once x = 0))"
      by (simp add: and_ffff drop_bit_16 fold_once_def)
    have eq: "fold_carry x = fold_carry (fold_once x)"
      using True by (subst fold_carry_fold_once) simp
    show ?thesis
      unfolding eq using ih fold_once_mod [of x] fold_once_zero [OF "1.prems"] by simp
  next
    case False
    then have "fold_carry x = x"
      by (subst fold_carry_fold_once) simp
    with False "1.prems" show ?thesis by simp
  qed
qed

section \<open>What the codec guarantees\<close>

text \<open>
  The method's result is the reference checksum up to one more fold: the two agree
  whenever the result fits in 16 bits.
\<close>

lemma reference_is_one_more_fold:
  "reference_checksum bs = fold_carry (calculate_checksum bs)"
proof -
  let ?x = "calculate_checksum bs"
  let ?S = "sum_list (be_words bs)"
  have x: "0 \<le> ?x" using calculate_checksum_bounds [of bs] by simp
  have S: "0 \<le> ?S" by (rule sum_be_words_nonneg)
  note px = fold_carry_props [OF x] and pS = fold_carry_props [OF S]
  have zero: "(?x = 0) = (?S = 0)"
    unfolding calculate_checksum_def using checksum_loop_zero [of 0 bs] by simp
  have "fold_carry ?S = fold_carry ?x"
  proof (rule congruent_residues)
    show "fold_carry ?S mod 65535 = fold_carry ?x mod 65535"
      using px pS calculate_checksum_mod [of bs] by simp
    show "(fold_carry ?S = 0) = (fold_carry ?x = 0)"
      using px pS zero by simp
  qed (use px pS in simp_all)
  then show ?thesis by (simp add: reference_checksum_def)
qed

lemma checksum_eq_reference:
  assumes "calculate_checksum bs \<le> 65535"
  shows "calculate_checksum bs = reference_checksum bs"
  unfolding reference_is_one_more_fold using assms by (subst fold_carry.simps) simp

text \<open>
  Storing the flipped checksum of the draft in the checksum field gives a message whose
  checksum is \<open>0xFFFF\<close>, provided the checksum of the draft fits in 16 bits; and
  \<open>build_message\<close> returns a message exactly then.
\<close>

lemma checksum_field_roundtrip:
  assumes "calculate_checksum ([8, 0] @ be_digits 2 0 @ tail) = s" and "s \<le> 65535"
  shows "calculate_checksum ([8, 0] @ be_digits 2 (65535 - s) @ tail) = 65535"
proof -
  let ?T = "sum_list (be_words tail)"
  let ?m = "[8, 0] @ be_digits 2 (65535 - s) @ tail"
  have s0: "0 \<le> s"
    using calculate_checksum_bounds [of "[8, 0] @ be_digits 2 0 @ tail"] assms(1) by simp
  have "be_words ([8, 0] @ be_digits 2 0 @ tail) = 2048 # 0 # be_words tail"
    by (simp add: be_words_field)
  then have draft: "s mod 65535 = (2048 + ?T) mod 65535"
    using calculate_checksum_mod [of "[8, 0] @ be_digits 2 0 @ tail"] assms(1) by simp
  have "be_words ?m = 2048 # (65535 - s) # be_words tail"
    using s0 assms(2) by (simp add: be_words_field)
  then have "calculate_checksum ?m mod 65535 = (2048 + (65535 - s + ?T)) mod 65535"
    using calculate_checksum_mod [of ?m] by simp
  also have "2048 + (65535 - s + ?T) = (2048 + ?T - s) + 65535 * 1"
    by simp
  also have "(2048 + ?T - s + 65535 * 1) mod 65535 = (2048 + ?T - s) mod 65535"
    by (rule mod_mult_self2)
  also have "\<dots> = ((2048 + ?T) mod 65535 - s mod 65535) mod 65535"
    by (rule mod_diff_eq [symmetric])
  also have "\<dots> = 0"
    by (simp only: draft) simp
  finally have "65535 dvd calculate_checksum ?m"
    by (simp add: mod_eq_0_iff_dvd)
  then obtain k where k: "calculate_checksum ?m = 65535 * k" ..
  have "calculate_checksum ?m = checksum_loop (fold_once (word_of 8 0 + 0)) (be_digits 2 (65535 - s) @ tail)"
    unfolding calculate_checksum_def append_Cons append_Nil by (rule checksum_loop_step)
  moreover have "0 < fold_once (word_of 8 0 + 0)"
    by (simp add: fold_once_def word_of_def)
  ultimately have "0 < calculate_checksum ?m"
    by (simp only: checksum_loop_pos)
  moreover have "calculate_checksum ?m \<le> 65790"
    using calculate_checksum_bounds [of ?m] by simp
  ultimately have "k = 1"
    unfolding k by linarith
  with k show ?thesis by simp
qed

lemma build_message_valid:
  assumes "build_message p t seq_num = Inr m"
  shows "length m = 14 \<and> calculate_checksum m = 65535"
proof -
  define tail where
    "tail = be_digits 2 (p mod 65536) @ be_digits 2 seq_num @ be_digits 6 t"
  define s where "s = calculate_checksum ([8, 0] @ be_digits 2 0 @ tail)"
  from assms have fit: "s \<le> 65535" and m: "m = [8, 0] @ be_digits 2 (65535 - s) @ tail"
    by (auto simp: build_message_def to_bytes_def bit_flip_def Let_def s_def tail_def
        split: if_splits)
  have "length m = 14"
    unfolding m tail_def by (simp add: length_be_digits)
  moreover have "calculate_checksum m = 65535"
    unfolding m using s_def [symmetric] fit by (rule checksum_field_roundtrip)
  ultimately show ?thesis ..
qed

lemma to_bytes_fits: "0 \<le> x \<Longrightarrow> x < 256 ^ n \<Longrightarrow> to_bytes x n = Inr (be_digits n x)"
  by (simp add: to_bytes_def)

lemma build_message_result:
  fixes p t seq_num :: int
  assumes "0 \<le> seq_num" "seq_num < 65536" "0 \<le> t" "t < 281474976710656"
  defines "tail \<equiv> be_digits 2 (p mod 65536) @ be_digits 2 seq_num @ be_digits 6 t"
  defines "s \<equiv> calculate_checksum ([8, 0] @ be_digits 2 0 @ tail)"
  shows "build_message p t seq_num =
    (if s \<le> 65535 then Inr ([8, 0] @ be_digits 2 (65535 - s) @ tail) else Inl OverflowError)"
proof -
  have i: "to_bytes (p mod 65536) 2 = Inr (be_digits 2 (p mod 65536))"
    by (rule to_bytes_fits) simp_all
  have z: "to_bytes 0 2 = Inr (be_digits 2 0)"
    by (rule to_bytes_fits) simp_all
  have q: "to_bytes seq_num 2 = Inr (be_digits 2 seq_num)"
    using assms(1,2) by (intro to_bytes_fits) simp_all
  have n: "to_bytes t 6 = Inr (be_digits 6 t)"
    using assms(3,4) by (intro to_bytes_fits) simp_all
  have s0: "0 \<le> s"
    unfolding s_def using calculate_checksum_bounds by blast
  have f: "to_bytes (bit_flip s) 2 =
      (if s \<le> 65535 then Inr (be_digits 2 (65535 - s)) else Inl OverflowError)"
    using s0 by (simp add: to_bytes_def bit_flip_def)
  show ?thesis
    unfolding build_message_def Let_def i z q n sum.case s_def [symmetric] tail_def [symmetric] f
    by simp
qed

section \<open>Effects of a probe and of a run on the counters\<close>

lemma snd_send_ping: "snd (send_ping c k e) = outcome_of k e"
  by (simp add: send_ping_def outcome_of_def Let_def split: sum.splits io.splits)

lemma request_count_send_ping:
  "request_count (fst (send_ping c k e)) = request_count c + (if terminal (outcome_of k e) then 1 else 0)"
  by (simp add: send_ping_def outcome_of_def Let_def split: sum.splits io.splits)

lemma reply_count_send_ping:
  "reply_count (fst (send_ping c k e)) = reply_count c + (if outcome_of k e = Replied then 1 else 0)"
  by (simp add: send_ping_def outcome_of_def Let_def split: sum.splits io.splits)

lemma rtt_list_send_ping:
  "rtt_list (fst (send_ping c k e)) = rtt_list c @ (if got_reply (outcome_of k e) then [measured_rtt e] else [])"
  by (simp add: send_ping_def outcome_of_def measured_rtt_def Let_def split: sum.splits io.splits)

lemma frame_send_ping:
  "server_ip (fst (send_ping c k e)) = server_ip c"
  "count (fst (send_ping c k e)) = count c"
  "period (fst (send_ping c k e)) = period c"
  "thread_list (fst (send_ping c k e)) = thread_list c"
  "total_start (fst (send_ping c k e)) = total_start c"
  "total_end (fst (send_ping c k e)) = total_end c"
  by (simp_all add: send_ping_def Let_def split: sum.splits io.splits)

lemma request_count_threads:
  "request_count (foldl (thread_body envs) c ts) =
     request_count c + int (length (filter (\<lambda>t. terminal (outcome_of (thread_arg t) (envs (thread_arg t)))) ts))"
  by (induction ts arbitrary: c) (simp_all add: thread_body_def request_count_send_ping)

lemma reply_count_threads:
  "reply_count (foldl (thread_body envs) c ts) =
     reply_count c + int (length (filter (\<lambda>t. outcome_of (thread_arg t) (envs (thread_arg t)) = Replied) ts))"
  by (induction ts arbitrary: c) (simp_all add: thread_body_def reply_count_send_ping)

lemma rtt_list_threads:
  "rtt_list (foldl (thread_body envs) c ts) =
     rtt_list c @ map (\<lambda>t. measured_rtt (envs (thread_arg t)))
       (filter (\<lambda>t. got_reply (outcome_of (thread_arg t) (envs (thread_arg t)))) ts)"
  by (induction ts arbitrary: c) (simp_all add: thread_body_def rtt_list_send_ping)

lemma frame_threads:
  "server_ip (foldl (thread_body envs) c ts) = server_ip c"
  "count (foldl (thread_body envs) c ts) = count c"
  "period (foldl (thread_body envs) c ts) = period c"
  "thread_list (foldl (thread_body envs) c ts) = thread_list c"
  "total_start (foldl (thread_body envs) c ts) = total_start c"
  "total_end (foldl (thread_body envs) c ts) = total_end c"
  by (induction ts arbitrary: c) (simp_all add: thread_body_def frame_send_ping)

lemma timer_loop_threads:
  "thread_list (timer_loop n c k) = thread_list c @ map (Timer (period c)) [k..k + int n - 1]"
proof (induction n arbitrary: c k)
  case 0
  then show ?case by simp
next
  case (Suc n)
  have "[k..k + int (Suc n) - 1] = k # [k + 1..k + 1 + int n - 1]"
    by (simp add: upto_rec1 [of k] add.commute add.left_commute)
  then show ?case by (simp add: Suc.IH)
qed

lemma timer_loop_frame:
  "server_ip (timer_loop n c k) = server_ip c"
  "count (timer_loop n c k) = count c"
  "period (timer_loop n c k) = period c"
  "total_start (timer_loop n c k) = total_start c"
  "total_end (timer_loop n c k) = total_end c"
  "request_count (timer_loop n c k) = request_count c"
  "reply_count (timer_loop n c k) = reply_count c"
  "rtt_list (timer_loop n c k) = rtt_list c"
  by (induction n arbitrary: c k) simp_all

lemma start_threads_list:
  "thread_list (start_threads c t0) = thread_list c @ Thread 1 # map (Timer (period c)) [2..count c]"
proof -
  have "2 + int (nat (count c - 1)) - 1 = count c \<or> count c < 2" by linarith
  then have "[2..2 + int (nat (count c - 1)) - 1] = [2..count c]"
    by auto
  then show ?thesis
    by (simp add: start_threads_def Let_def timer_loop_threads)
qed

lemma start_threads_frame:
  "server_ip (start_threads c t0) = server_ip c"
  "count (start_threads c t0) = count c"
  "period (start_threads c t0) = period c"
  "total_start (start_threads c t0) = t0"
  "total_end (start_threads c t0) = total_end c"
  "request_count (start_threads c t0) = request_count c"
  "reply_count (start_threads c t0) = reply_count c"
  "rtt_list (start_threads c t0) = rtt_list c"
  by (simp_all add: start_threads_def Let_def timer_loop_frame)

section \<open>The summary string\<close>

lemma py_min_Min: "xs \<noteq> [] \<Longrightarrow> py_min xs = Inr (Min (set xs))"
  by (cases xs) (simp_all add: py_min_def Min.set_eq_fold del: set_simps)

lemma py_max_Max: "xs \<noteq> [] \<Longrightarrow> py_max xs = Inr (Max (set xs))"
  by (cases xs) (simp_all add: py_max_def Max.set_eq_fold del: set_simps)

lemma summary_zero_division:
  "(summary_statistics c = Inl ZeroDivisionError) = (request_count c = 0)"
  by (auto simp: summary_statistics_def Let_def py_min_def py_max_def split: list.splits sum.splits)

lemma summary_no_reply:
  "reply_count c = 0 \<Longrightarrow> request_count c \<noteq> 0 \<Longrightarrow>
   summary_statistics c =
     Inr (''--- '' @ server_ip c @ '' ping statistics ---'' @ [CHR 0x0A]
          @ str_int (request_count c) @ '' transmitted, 0 received, 100% loss, time ''
          @ str_int (py_round (total_end c - total_start c)) @ '' ms'' @ [CHR 0x0A]
          @ ''rtt min/avg/max = 0/0/0 ms'')"
  by (simp add: summary_statistics_def Let_def str_int_def str_nat.simps py_round_def)

lemma summary_with_reply:
  "reply_count c \<noteq> 0 \<Longrightarrow> request_count c \<noteq> 0 \<Longrightarrow> rtt_list c \<noteq> [] \<Longrightarrow>
   summary_statistics c =
     Inr (''--- '' @ server_ip c @ '' ping statistics ---'' @ [CHR 0x0A]
          @ str_int (request_count c) @ '' transmitted, '' @ str_int (reply_count c)
          @ '' received, ''
          @ str_int (py_round ((1 - of_int (reply_count c) / of_int (request_count c)) * 100))
          @ ''% loss, time ''
          @ str_int (py_round (total_end c - total_start c)) @ '' ms'' @ [CHR 0x0A]
          @ ''rtt min/avg/max = '' @ str_int (Min (set (rtt_list c))) @ ''/''
          @ str_int (py_round (of_int (sum_list (rtt_list c)) / of_nat (length (rtt_list c))))
          @ ''/'' @ str_int (Max (set (rtt_list c))) @ '' ms'')"
  by (simp add: summary_statistics_def Let_def py_min_Min py_max_Max)

section \<open>The state a run reaches\<close>

lemma thread_args:
  "1 \<le> N \<Longrightarrow> map thread_arg (Thread 1 # map (Timer p) [2..N]) = [1..N]"
  by (simp add: comp_def upto_rec1 [of 1 N])

lemma length_filter_threads:
  "length (filter (\<lambda>t. P (thread_arg t)) ts) = length (filter P (map thread_arg ts))"
  by (simp add: filter_map comp_def)

lemma map_filter_threads:
  "map (\<lambda>t. f (thread_arg t)) (filter (\<lambda>t. P (thread_arg t)) ts) =
   map f (filter P (map thread_arg ts))"
  by (simp add: filter_map comp_def)

lemma length_filter_sort_key:
  "length (filter P (sort_key f xs)) = length (filter P xs)"
  by (simp add: filter_sort)

lemma joined_state:
  fixes ip port N period_ms timeout_ms t0 envs finished done_at
  defines "cj \<equiv>
    join_threads (start_threads (init ip port N period_ms timeout_ms) t0) envs finished done_at"
  assumes N: "1 \<le> N"
  shows "request_count cj = int (length (filter (\<lambda>k. terminal (outcome_of k (envs k))) [1..N]))"
    and "reply_count cj = int (length (filter (\<lambda>k. outcome_of k (envs k) = Replied) [1..N]))"
    and "mset (rtt_list cj) = mset (in_time_rtts envs N)"
    and "server_ip cj = ip"
    and "thread_list cj = Thread 1 # map (Timer (of_int period_ms / 1000)) [2..N]"
    and "total_start cj = t0"
proof -
  let ?c0 = "init ip port N period_ms timeout_ms"
  let ?ts = "Thread 1 # map (Timer (of_int period_ms / 1000)) [2..N]"
  have c0: "thread_list ?c0 = []" "count ?c0 = N" "period ?c0 = of_int period_ms / 1000"
    "request_count ?c0 = 0" "reply_count ?c0 = 0" "rtt_list ?c0 = []" "server_ip ?c0 = ip"
    by (simp_all add: init_def)
  have started: "thread_list (start_threads ?c0 t0) = ?ts" "count (start_threads ?c0 t0) = N"
    by (simp_all add: start_threads_list start_threads_frame c0)
  have "int (length ?ts) = N"
    using N by simp
  then have cj: "cj = foldl (thread_body envs) (start_threads ?c0 t0) (sort_key done_at ?ts)"
    unfolding cj_def join_threads_def started by (simp only: simp_thms if_True)
  have args: "map thread_arg ?ts = [1..N]"
    using N by (rule thread_args)
  have cnt: "length (filter (\<lambda>t. P (thread_arg t)) (sort_key done_at ?ts)) = length (filter P [1..N])"
    for P
  proof -
    have "length (filter (\<lambda>t. P (thread_arg t)) (sort_key done_at ?ts))
            = length (filter (\<lambda>t. P (thread_arg t)) ?ts)"
      by (rule length_filter_sort_key)
    also have "\<dots> = length (filter P (map thread_arg ?ts))"
      by (rule length_filter_threads)
    also have "\<dots> = length (filter P [1..N])"
      by (simp only: args)
    finally show ?thesis .
  qed
  show "request_count cj = int (length (filter (\<lambda>k. terminal (outcome_of k (envs k))) [1..N]))"
    unfolding cj request_count_threads cnt [of "\<lambda>k. terminal (outcome_of k (envs k))"]
    by (simp only: start_threads_frame c0 add_0)
  show "reply_count cj = int (length (filter (\<lambda>k. outcome_of k (envs k) = Replied) [1..N]))"
    unfolding cj reply_count_threads cnt [of "\<lambda>k. outcome_of k (envs k) = Replied"]
    by (simp only: start_threads_frame c0 add_0)
  have "mset (map (\<lambda>t. measured_rtt (envs (thread_arg t)))
          (filter (\<lambda>t. got_reply (outcome_of (thread_arg t) (envs (thread_arg t))))
            (sort_key done_at ?ts)))
      = mset (map (\<lambda>t. measured_rtt (envs (thread_arg t)))
          (filter (\<lambda>t. got_reply (outcome_of (thread_arg t) (envs (thread_arg t)))) ?ts))"
    by (simp only: mset_map mset_filter mset_sort)
  also have "\<dots> = mset (in_time_rtts envs N)"
    unfolding in_time_rtts_def
      map_filter_threads [of "\<lambda>k. measured_rtt (envs k)" "\<lambda>k. got_reply (outcome_of k (envs k))"] args
    by (rule refl)
  finally show "mset (rtt_list cj) = mset (in_time_rtts envs N)"
    unfolding cj rtt_list_threads by (simp only: start_threads_frame c0 append_Nil)
  show "server_ip cj = ip"
    unfolding cj frame_threads by (simp add: start_threads_frame c0)
  show "thread_list cj = ?ts"
    unfolding cj frame_threads by (simp add: start_threads_list c0)
  show "total_start cj = t0"
    unfolding cj frame_threads by (simp add: start_threads_frame)
qed

lemma run_prints:
  "summary_statistics ((join_threads (start_threads c t0) envs finished done_at)\<lparr>total_end := t1\<rparr>) = Inr s \<Longrightarrow>
   run c t0 t1 envs finished done_at =
     ((join_threads (start_threads c t0) envs finished done_at)
        \<lparr>total_end := t1,
         console := console (join_threads (start_threads c t0) envs finished done_at) @ [s]\<rparr>, None)"
  by (simp add: run_def Let_def)


lemma replied_gives_rtt:
  assumes "filter (\<lambda>k. outcome_of k (envs k) = Replied) ks \<noteq> []"
  shows "filter (\<lambda>k. got_reply (outcome_of k (envs k))) ks \<noteq> []"
proof -
  from assms obtain k where "k \<in> set ks" "outcome_of k (envs k) = Replied"
    by (auto simp: filter_empty_conv)
  then show ?thesis by (auto simp: filter_empty_conv intro!: bexI [of _ k])
qed

lemma thread_list_run:
  "thread_list (fst (run c t0 t1 envs finished done_at)) =
   thread_list (join_threads (start_threads c t0) envs finished done_at)"
  by (simp add: run_def Let_def split: sum.splits)

lemma run_state_fields:
  "request_count (fst (run c t0 t1 envs finished done_at)) =
     request_count (join_threads (start_threads c t0) envs finished done_at)"
  "rtt_list (fst (run c t0 t1 envs finished done_at)) =
     rtt_list (join_threads (start_threads c t0) envs finished done_at)"
  by (simp_all add: run_def Let_def split: sum.splits)


lemma failing_outcomes:
  "outcome_of 1 (failing_envs 1) = Raised OSError"
  "outcome_of 2 (failing_envs 2) = TimedOut"
  by code_simp+

lemma ints_1_2: "{1..2::int} = {1, 2}" by auto

section \<open>Message codec: the checksum is not confined to 16 bits\<close>

text \<open>
  Claim C6 (the checksum is 16-bit valued, so the flipped checksum can be stored in the
  two-byte field). The shifted word \<open>w\<close> has up to 24 bits and the accumulator is folded
  only once per step, so the result can pass \<open>0xFFFF\<close>: on the four bytes
  \<open>00 FF FF FF\<close> the method returns 65790, \<open>bit_flip\<close> gives \<open>-255\<close>, and
  \<open>to_bytes(2, ...)\<close> raises \<open>OverflowError\<close>.
\<close>

theorem checksum_exceeds_16_bits:
  "calculate_checksum [0x00, 0xFF, 0xFF, 0xFF] = 65790 \<and>
   bit_flip (calculate_checksum [0x00, 0xFF, 0xFF, 0xFF]) = - 255 \<and>
   to_bytes (bit_flip (calculate_checksum [0x00, 0xFF, 0xFF, 0xFF])) 2 = Inl OverflowError"
  by (simp add: calculate_checksum_def bit_flip_def to_bytes_def)

text \<open>
  Claim C2 (the method computes the reference one's-complement checksum of an
  even-length byte string). On the four bytes \<open>12 FF ED 34\<close> the big-endian words sum
  to \<open>0x10033\<close>, which folds to \<open>0x34\<close>; the method returns \<open>0x10033\<close> unfolded.
\<close>

theorem checksum_differs_from_reference:
  "calculate_checksum [0x12, 0xFF, 0xED, 0x34] = 65587 \<and>
   reference_checksum [0x12, 0xFF, 0xED, 0x34] = 52"
  by (simp add: calculate_checksum_def reference_checksum_def fold_carry.simps)

text \<open>
  Claim C1 (every built request passes the client's own validation). For process id
  4321, sequence number 1 and the clock at 1699999978926 ms, the checksum of the draft
  is \<open>0x10000\<close>, its flip is \<open>-1\<close>, and \<open>build_message\<close> raises \<open>OverflowError\<close>
  instead of returning a message.
\<close>

theorem build_message_overflow:
  "build_message 4321 1699999978926 1 = Inl OverflowError"
  by code_simp

section \<open>Probe executor: which failures are absorbed\<close>

text \<open>
  Claim C3 says that every transport failure other than a timeout is absorbed at the
  probe boundary and the probe is recorded as timed-out, the sent counter incremented
  once. It is not: \<open>recvfrom\<close> raising an \<open>OSError\<close> that is not a timeout leaves
  \<open>send_ping\<close> as an exception, and the sent counter stays at 0.
\<close>

theorem transport_failure_counterexample:
  "snd (send_ping (init ''10.0.0.1'' 7 1 1000 500) 1 (example_env\<lparr>recvfrom := RaisedOSError\<rparr>))
     = Raised OSError \<and>
   request_count (fst (send_ping (init ''10.0.0.1'' 7 1 1000 500) 1
     (example_env\<lparr>recvfrom := RaisedOSError\<rparr>))) = 0"
  by code_simp

text \<open>
  Claim C3, amended. Only a timeout is absorbed: when the endpoint is set up, the
  message is built and \<open>sendto\<close> or \<open>recvfrom\<close> raises \<open>socket.timeout\<close>, the probe
  ends timed-out, with the sent counter incremented exactly once and the reply counter
  and the RTT list unchanged. When the endpoint cannot be set up, or \<open>sendto\<close> or
  \<open>recvfrom\<close> raises another \<open>OSError\<close>, an exception leaves \<open>send_ping\<close> and the
  probe is not recorded: the three are unchanged. The exception ends that probe's
  thread only: after any list of threads has run, the sent counter has grown by the
  number of probes among them that reached one of their three ends, whatever
  happened to the others.
\<close>

theorem only_timeout_absorbed:
  "(bind_ok env \<and> build_message (pid env) (now_ms env) seq_num = Inr request_msg \<and>
      (sendto env = RaisedTimeout \<or> sendto env = Returned () \<and> recvfrom env = RaisedTimeout)
    \<longrightarrow> snd (send_ping c seq_num env) = TimedOut
        \<and> request_count (fst (send_ping c seq_num env)) = request_count c + 1
        \<and> reply_count (fst (send_ping c seq_num env)) = reply_count c
        \<and> rtt_list (fst (send_ping c seq_num env)) = rtt_list c)
   \<and> (\<not> bind_ok env \<or> sendto env = RaisedOSError \<or>
        sendto env = Returned () \<and> recvfrom env = RaisedOSError
    \<longrightarrow> (\<exists>e. snd (send_ping c seq_num env) = Raised e)
        \<and> request_count (fst (send_ping c seq_num env)) = request_count c
        \<and> reply_count (fst (send_ping c seq_num env)) = reply_count c
        \<and> rtt_list (fst (send_ping c seq_num env)) = rtt_list c)
   \<and> request_count (foldl (thread_body envs) c ts) =
        request_count c + int (length (filter
          (\<lambda>t. terminal (outcome_of (thread_arg t) (envs (thread_arg t)))) ts))"
proof (intro conjI impI)
  assume "bind_ok env \<and> build_message (pid env) (now_ms env) seq_num = Inr request_msg \<and>
      (sendto env = RaisedTimeout \<or> sendto env = Returned () \<and> recvfrom env = RaisedTimeout)"
  then have "send_ping c seq_num env =
      ((if seq_num = 1 then c\<lparr>console := console c @ [''PING '' @ server_ip c]\<rparr> else c)
         \<lparr>request_count := request_count c + 1\<rparr>, TimedOut)"
    by (auto simp: send_ping_def Let_def)
  then show "snd (send_ping c seq_num env) = TimedOut"
    and "request_count (fst (send_ping c seq_num env)) = request_count c + 1"
    and "reply_count (fst (send_ping c seq_num env)) = reply_count c"
    and "rtt_list (fst (send_ping c seq_num env)) = rtt_list c"
    by simp_all
next
  assume fail: "\<not> bind_ok env \<or> sendto env = RaisedOSError \<or>
        sendto env = Returned () \<and> recvfrom env = RaisedOSError"
  then have raised: "\<exists>e. outcome_of seq_num env = Raised e"
    by (auto simp: outcome_of_def send_ping_def Let_def split: sum.splits)
  then show "\<exists>e. snd (send_ping c seq_num env) = Raised e"
    by (simp add: snd_send_ping)
  from raised show "request_count (fst (send_ping c seq_num env)) = request_count c"
    by (auto simp: request_count_send_ping)
  from raised show "reply_count (fst (send_ping c seq_num env)) = reply_count c"
    by (auto simp: reply_count_send_ping)
  from raised show "rtt_list (fst (send_ping c seq_num env)) = rtt_list c"
    by (auto simp: rtt_list_send_ping)
next
  show "request_count (foldl (thread_body envs) c ts) =
        request_count c + int (length (filter
          (\<lambda>t. terminal (outcome_of (thread_arg t) (envs (thread_arg t)))) ts))"
    by (rule request_count_threads)
qed

theorem only_timeout_absorbed_witness:
  "snd (send_ping (init ''10.0.0.1'' 7 2 1000 500) 2 example_env) = TimedOut \<and>
   request_count (fst (send_ping (init ''10.0.0.1'' 7 2 1000 500) 2 example_env)) = 1 \<and>
   (\<exists>e. snd (send_ping (init ''10.0.0.1'' 7 2 1000 500) 2
      (example_env\<lparr>sendto := RaisedOSError\<rparr>)) = Raised e) \<and>
   request_count (fst (send_ping (init ''10.0.0.1'' 7 2 1000 500) 2
      (example_env\<lparr>sendto := RaisedOSError\<rparr>))) = 0"
proof -
  let ?c = "init ''10.0.0.1'' 7 2 1000 500"
  have b: "build_message (pid example_env) (now_ms example_env) 2 =
           Inr [8, 0, 173, 171, 16, 225, 0, 2, 1, 139, 207, 229, 104, 0]"
    by code_simp
  have t: "bind_ok example_env \<and>
      build_message (pid example_env) (now_ms example_env) 2 =
        Inr [8, 0, 173, 171, 16, 225, 0, 2, 1, 139, 207, 229, 104, 0] \<and>
      (sendto example_env = RaisedTimeout \<or>
       sendto example_env = Returned () \<and> recvfrom example_env = RaisedTimeout)"
    using b by (simp add: example_env_def)
  have f: "\<not> bind_ok (example_env\<lparr>sendto := RaisedOSError\<rparr>) \<or>
      sendto (example_env\<lparr>sendto := RaisedOSError\<rparr>) = RaisedOSError \<or>
      sendto (example_env\<lparr>sendto := RaisedOSError\<rparr>) = Returned () \<and>
      recvfrom (example_env\<lparr>sendto := RaisedOSError\<rparr>) = RaisedOSError"
    by simp
  have c: "request_count ?c = 0" by (simp add: init_def)
  from only_timeout_absorbed [of example_env 2 _ ?c] t c
  have "snd (send_ping ?c 2 example_env) = TimedOut \<and>
        request_count (fst (send_ping ?c 2 example_env)) = 1"
    by simp
  moreover from only_timeout_absorbed [of "example_env\<lparr>sendto := RaisedOSError\<rparr>" 2 _ ?c] f c
  have "(\<exists>e. snd (send_ping ?c 2 (example_env\<lparr>sendto := RaisedOSError\<rparr>)) = Raised e) \<and>
        request_count (fst (send_ping ?c 2 (example_env\<lparr>sendto := RaisedOSError\<rparr>))) = 0"
    by simp
  ultimately show ?thesis by simp
qed

section \<open>Probe scheduler: the dispatch schedule\<close>

text \<open>
  In a run of \<open>N \<ge> 1\<close> probes the threads carry the sequence numbers \<open>1..N\<close> in
  order; the first is a plain thread, called at once, and every other one is a timer
  whose interval is one period (in seconds). All of them are started by
  \<open>start_threads\<close>, at the start of the run, so the probes \<open>2..N\<close> are all due one
  period after the start.
\<close>

lemma timers_all_get_one_period:
  assumes "1 \<le> N"
  shows "map thread_arg (thread_list (fst (run (init ip port N period_ms timeout_ms) t0 t1 envs finished done_at)))
           = [1..N]
       \<and> map thread_delay (thread_list (fst (run (init ip port N period_ms timeout_ms) t0 t1 envs finished done_at)))
           = 0 # replicate (nat (N - 1)) (of_int period_ms / 1000)"
proof -
  let ?ts = "Thread 1 # map (Timer (of_int period_ms / 1000)) [2..N]"
  have ts: "thread_list (fst (run (init ip port N period_ms timeout_ms) t0 t1 envs finished done_at)) = ?ts"
    by (simp only: thread_list_run joined_state(5) [OF assms])
  have "map thread_delay ?ts = 0 # replicate (length [2..N]) (of_int period_ms / 1000)"
    by (simp add: comp_def map_replicate_const)
  moreover have "length [2..N] = nat (N - 1)" by simp
  ultimately show ?thesis
    unfolding ts using thread_args [OF assms] by simp
qed

text \<open>
  Claim C4 (probe \<open>k\<close> in \<open>2..N\<close> is dispatched \<open>(k-1) * period\<close> after the start of
  the run). In a run of 3 probes with a period of 1000 ms, the delays of the three
  threads are 0, 1 and 1 second: the timer of probe 3 is created with an interval of
  one period, where the schedule of the claim asks for two, and probes 2 and 3 are
  sent together.
\<close>

theorem third_probe_shares_delay:
  "map thread_delay (thread_list (start_threads (init ''10.0.0.1'' 7 3 1000 500) 0)) = [0, 1, 1] \<and>
   thread_list (start_threads (init ''10.0.0.1'' 7 3 1000 500) 0) ! 2 = Timer 1 3 \<and>
   (3 - 1) * period (init ''10.0.0.1'' 7 3 1000 500) = 2"
  by code_simp

section \<open>The transmitted count of a run\<close>



section \<open>Statistics reporter: the summary without replies\<close>

text \<open>
  Claim C7. When no reply was received (\<open>reply_count\<close> is 0) and the loss percentage
  can be computed (\<open>request_count\<close> is not 0, the case of Claim C10), the summary
  ends with the fixed line \<open>rtt min/avg/max = 0/0/0 ms\<close>; \<open>rtt_list\<close> is not
  aggregated, so it may be empty.
\<close>

theorem no_reply_placeholder:
  assumes "reply_count c = 0" and "request_count c \<noteq> 0"
  shows "summary_statistics c =
     Inr (''--- '' @ server_ip c @ '' ping statistics ---'' @ [CHR 0x0A]
          @ str_int (request_count c) @ '' transmitted, 0 received, 100% loss, time ''
          @ str_int (py_round (total_end c - total_start c)) @ '' ms'' @ [CHR 0x0A]
          @ ''rtt min/avg/max = 0/0/0 ms'')"
  using assms by (rule summary_no_reply)

theorem no_reply_placeholder_witness:
  "summary_statistics ((init ''10.0.0.1'' 7 3 1000 500)\<lparr>request_count := 3, total_end := 2500\<rparr>) =
     Inr (''--- 10.0.0.1 ping statistics ---'' @ [CHR 0x0A]
          @ ''3 transmitted, 0 received, 100% loss, time 2500 ms'' @ [CHR 0x0A]
          @ ''rtt min/avg/max = 0/0/0 ms'')"
proof -
  let ?c = "(init ''10.0.0.1'' 7 3 1000 500)\<lparr>request_count := 3, total_end := 2500\<rparr>"
  have h1: "reply_count ?c = 0" by (simp add: init_def)
  have h2: "request_count ?c \<noteq> 0" by simp
  have "str_int 3 = ''3''" "str_int (py_round 2500) = ''2500''"
    by code_simp+
  with no_reply_placeholder [OF h1 h2] show ?thesis
    by (simp add: init_def)
qed

section \<open>Probe executor: classifying a reply\<close>

text \<open>
  Claim C8. When a datagram comes back within the deadline, the probe counts as
  sent, and the reply counter is incremented exactly when the checksum of the whole
  datagram is \<open>0xFFFF\<close>. Otherwise the probe ends checksum-invalid and the line printed
  is the warning with the sequence number read from bytes 6 and 7 of the datagram
  (after the \<open>PING\<close> line when the probe is the first).
\<close>

theorem reply_checksum_classification:
  assumes "bind_ok env"
    and "build_message (pid env) (now_ms env) seq_num = Inr request_msg"
    and "sendto env = Returned ()"
    and "recvfrom env = Returned data"
  shows "request_count (fst (send_ping c seq_num env)) = request_count c + 1
       \<and> reply_count (fst (send_ping c seq_num env)) =
           reply_count c + (if calculate_checksum data = 65535 then 1 else 0)
       \<and> (if calculate_checksum data = 65535 then snd (send_ping c seq_num env) = Replied
          else snd (send_ping c seq_num env) = ChecksumInvalid
             \<and> console (fst (send_ping c seq_num env)) =
                 console c @ (if seq_num = 1 then [''PING '' @ server_ip c] else [])
                 @ [''WARNING: checksum verification failure for echo reply seqno=''
                    @ str_int (from_bytes (take 2 (drop 6 data)))])"
  using assms by (simp add: send_ping_def Let_def)

theorem reply_checksum_classification_witness:
  "request_count (fst (send_ping (init ''10.0.0.1'' 7 3 1000 500) 2 (example_envs 2))) = 1 \<and>
   reply_count (fst (send_ping (init ''10.0.0.1'' 7 3 1000 500) 2 (example_envs 2))) = 0 \<and>
   console (fst (send_ping (init ''10.0.0.1'' 7 3 1000 500) 2 (example_envs 2))) =
     [''WARNING: checksum verification failure for echo reply seqno=2''] \<and>
   reply_count (fst (send_ping (init ''10.0.0.1'' 7 3 1000 500) 1 (example_envs 1))) = 1"
proof -
  let ?c = "init ''10.0.0.1'' 7 3 1000 500"
  let ?good = "[8, 0, 173, 172, 16, 225, 0, 1, 1, 139, 207, 229, 104, 0] :: byte list"
  let ?bad = "[8, 0, 173, 171, 16, 225, 0, 2, 1, 139, 207, 229, 104, 1] :: byte list"
  have e1: "bind_ok (example_envs 1)" "sendto (example_envs 1) = Returned ()"
    "recvfrom (example_envs 1) = Returned ?good"
    by (simp_all add: example_envs_def example_env_def)
  have e2: "bind_ok (example_envs 2)" "sendto (example_envs 2) = Returned ()"
    "recvfrom (example_envs 2) = Returned ?bad"
    by (simp_all add: example_envs_def example_env_def)
  have b1: "build_message (pid (example_envs 1)) (now_ms (example_envs 1)) 1 = Inr ?good"
    by code_simp
  have b2: "build_message (pid (example_envs 2)) (now_ms (example_envs 2)) 2 =
              Inr [8, 0, 173, 171, 16, 225, 0, 2, 1, 139, 207, 229, 104, 0]"
    by code_simp
  have k: "calculate_checksum ?good = 65535" "calculate_checksum ?bad = 65536"
    "str_int (from_bytes [0, 2 :: byte]) = ''2''"
    by code_simp+
  have c: "request_count ?c = 0" "reply_count ?c = 0" "console ?c = []"
    by (simp_all add: init_def)
  from reply_checksum_classification [OF e2(1) b2 e2(2) e2(3), of ?c]
  have bad: "request_count (fst (send_ping ?c 2 (example_envs 2))) = 1 \<and>
      reply_count (fst (send_ping ?c 2 (example_envs 2))) = 0 \<and>
      console (fst (send_ping ?c 2 (example_envs 2))) =
        [''WARNING: checksum verification failure for echo reply seqno=2'']"
    by (simp add: k c)
  from reply_checksum_classification [OF e1(1) b1 e1(2) e1(3), of ?c]
  have good: "reply_count (fst (send_ping ?c 1 (example_envs 1))) = 1"
    by (simp add: k c)
  from bad good show ?thesis by simp
qed

section \<open>The RTT line of the summary\<close>

lemma overlap_outcomes:
  "outcome_of 1 (overlap_envs 1) = Replied"
  "outcome_of 2 (overlap_envs 2) = ChecksumInvalid"
  by code_simp+

text \<open>
  In the sample run with overlapping probes, probe 2 completes before probe 1, and
  \<open>rtt_list\<close> holds the two round-trip times in that order.
\<close>

lemma overlap_run_rtt_list:
  "rtt_list (fst (run (init ''10.0.0.1'' 7 2 250 2000) 0 600 overlap_envs (\<lambda>t. True)
     overlap_done_at)) = [7, 500]"
  by code_simp

text \<open>
  Claim C9. The RTT of every datagram received in time is appended to \<open>rtt_list\<close>
  before its checksum is looked at. So in a run of \<open>N \<ge> 1\<close> probes with at least one
  valid reply, whatever the order in which the probes complete, the summary is
  printed, \<open>rtt_list\<close> holds (in some order) exactly the RTTs of all probes that got a
  datagram back, those with an invalid checksum included, and the minimum, rounded
  average and maximum reported are taken over them.
\<close>

theorem rtt_summary_over_all_replies:
  assumes "1 \<le> N" and "\<exists>k\<in>{1..N}. outcome_of k (envs k) = Replied"
  shows "\<exists>c' body. run (init ip port N period_ms timeout_ms) t0 t1 envs finished done_at = (c', None)
           \<and> mset (rtt_list c') = mset (in_time_rtts envs N)
           \<and> last (console c') = body @ ''rtt min/avg/max = ''
                @ str_int (Min (set (in_time_rtts envs N))) @ ''/''
                @ str_int (py_round (of_int (sum_list (in_time_rtts envs N))
                                     / of_nat (length (in_time_rtts envs N))))
                @ ''/'' @ str_int (Max (set (in_time_rtts envs N))) @ '' ms''"
proof -
  let ?cj = "join_threads (start_threads (init ip port N period_ms timeout_ms) t0) envs finished done_at"
  let ?c = "?cj\<lparr>total_end := t1\<rparr>"
  let ?rtts = "in_time_rtts envs N"
  from assms(2) have replied: "filter (\<lambda>k. outcome_of k (envs k) = Replied) [1..N] \<noteq> []"
    by (auto simp: filter_empty_conv)
  then have r: "reply_count ?c \<noteq> 0"
    by (simp add: joined_state(2) [OF assms(1)])
  from assms(2) obtain k where "k \<in> set [1..N]" "terminal (outcome_of k (envs k))"
    by auto
  then have "filter (\<lambda>k. terminal (outcome_of k (envs k))) [1..N] \<noteq> []"
    unfolding filter_empty_conv by blast
  then have q: "request_count ?c \<noteq> 0"
    by (simp add: joined_state(1) [OF assms(1)])
  have l: "mset (rtt_list ?c) = mset ?rtts"
    by (simp add: joined_state(3) [OF assms(1)])
  have same_set: "set (rtt_list ?c) = set ?rtts"
    using l by (rule mset_eq_setD)
  have same_length: "length (rtt_list ?c) = length ?rtts"
    using l by (rule mset_eq_length)
  have "sum_mset (mset (rtt_list ?c)) = sum_mset (mset ?rtts)"
    by (simp only: l)
  then have same_sum: "sum_list (rtt_list ?c) = sum_list ?rtts"
    by (simp only: sum_mset_sum_list)
  have "?rtts \<noteq> []"
    unfolding in_time_rtts_def using replied_gives_rtt [OF replied] by simp
  then have ne: "rtt_list ?c \<noteq> []"
    using same_length by auto
  note s = summary_with_reply [OF r q ne]
  let ?body = "''--- '' @ server_ip ?c @ '' ping statistics ---'' @ [CHR 0x0A]
          @ str_int (request_count ?c) @ '' transmitted, '' @ str_int (reply_count ?c)
          @ '' received, ''
          @ str_int (py_round ((1 - of_int (reply_count ?c) / of_int (request_count ?c)) * 100))
          @ ''% loss, time ''
          @ str_int (py_round (total_end ?c - total_start ?c)) @ '' ms'' @ [CHR 0x0A]"
  let ?line = "''rtt min/avg/max = '' @ str_int (Min (set ?rtts)) @ ''/''
          @ str_int (py_round (of_int (sum_list ?rtts) / of_nat (length ?rtts)))
          @ ''/'' @ str_int (Max (set ?rtts)) @ '' ms''"
  have s': "summary_statistics ?c = Inr (?body @ ?line)"
    unfolding s same_set same_length same_sum by simp
  let ?c' = "?cj\<lparr>total_end := t1, console := console ?cj @ [?body @ ?line]\<rparr>"
  have "run (init ip port N period_ms timeout_ms) t0 t1 envs finished done_at = (?c', None)"
    by (rule run_prints [OF s'])
  moreover have "mset (rtt_list ?c') = mset ?rtts"
    using l by simp
  moreover have "last (console ?c') = ?body @ ?line"
    by simp
  ultimately show ?thesis by blast
qed

theorem rtt_summary_over_all_replies_witness:
  "mset (rtt_list (fst (run (init ''10.0.0.1'' 7 2 250 2000) 0 600 overlap_envs (\<lambda>t. True)
      overlap_done_at))) = {#7, 500#} \<and>
   (\<exists>body. last (console (fst (run (init ''10.0.0.1'' 7 2 250 2000) 0 600 overlap_envs
      (\<lambda>t. True) overlap_done_at))) = body @ ''rtt min/avg/max = 7/254/500 ms'')"
proof -
  have h1: "(1::int) \<le> 2" by simp
  have h2: "\<exists>k\<in>{1..2}. outcome_of k (overlap_envs k) = Replied"
    by (simp add: ints_1_2 overlap_outcomes)
  have r: "in_time_rtts overlap_envs 2 = [500, 7]"
    by code_simp
  have v: "str_int (Min (set [500, 7])) = ''7''" "str_int (Max (set [500, 7])) = ''500''"
    "str_int (py_round (of_int (sum_list [500, 7]) / of_nat (length [500, 7 :: int]))) = ''254''"
    by code_simp+
  from rtt_summary_over_all_replies [OF h1 h2, of "''10.0.0.1''" 7 250 2000 0 600 "\<lambda>t. True"
      overlap_done_at]
  obtain c' body where
    "run (init ''10.0.0.1'' 7 2 250 2000) 0 600 overlap_envs (\<lambda>t. True) overlap_done_at = (c', None)"
    "mset (rtt_list c') = mset [500, 7]"
    "last (console c') = body @ ''rtt min/avg/max = '' @ ''7'' @ ''/'' @ ''254'' @ ''/'' @ ''500'' @ '' ms''"
    unfolding r v by blast
  then show ?thesis by (simp add: add_mset_commute)
qed

section \<open>The division by the request counter\<close>

text \<open>
  Claim C10. \<open>summary_statistics\<close> raises \<open>ZeroDivisionError\<close> exactly when
  \<open>request_count\<close> is 0: the division has no guard. In a run of \<open>N \<ge> 1\<close> probes in
  which at least one probe ends on the reply or the timeout path, the counter is at
  least 1 when the summary is produced, and the division does not fail.
\<close>

theorem loss_division_unguarded:
  assumes "1 \<le> N" and "\<exists>k\<in>{1..N}. terminal (outcome_of k (envs k))"
  shows "1 \<le> request_count (fst (run (init ip port N period_ms timeout_ms) t0 t1 envs finished done_at))
       \<and> snd (run (init ip port N period_ms timeout_ms) t0 t1 envs finished done_at) \<noteq> Some ZeroDivisionError
       \<and> (summary_statistics c = Inl ZeroDivisionError) = (request_count c = 0)"
proof -
  let ?cj = "join_threads (start_threads (init ip port N period_ms timeout_ms) t0) envs finished done_at"
  let ?c = "?cj\<lparr>total_end := t1\<rparr>"
  from assms(2) obtain k where "k \<in> set [1..N]" "terminal (outcome_of k (envs k))"
    by auto
  then have "filter (\<lambda>k. terminal (outcome_of k (envs k))) [1..N] \<noteq> []"
    unfolding filter_empty_conv by blast
  then have "0 < length (filter (\<lambda>k. terminal (outcome_of k (envs k))) [1..N])"
    by simp
  then have sent: "1 \<le> request_count ?cj"
    unfolding joined_state(1) [OF assms(1)] by linarith
  then have "request_count ?c \<noteq> 0" by simp
  then have "summary_statistics ?c \<noteq> Inl ZeroDivisionError"
    by (simp only: summary_zero_division not_False_eq_True)
  then have "snd (run (init ip port N period_ms timeout_ms) t0 t1 envs finished done_at) \<noteq> Some ZeroDivisionError"
    by (auto simp: run_def Let_def split: sum.splits)
  with sent show ?thesis
    by (simp add: run_state_fields summary_zero_division)
qed

theorem loss_division_unguarded_witness:
  "1 \<le> request_count (fst (run (init ''10.0.0.1'' 7 2 1000 500) 0 2000 failing_envs (\<lambda>t. True) thread_delay)) \<and>
   snd (run (init ''10.0.0.1'' 7 2 1000 500) 0 2000 failing_envs (\<lambda>t. True) thread_delay) \<noteq> Some ZeroDivisionError \<and>
   summary_statistics (init ''10.0.0.1'' 7 2 1000 500) = Inl ZeroDivisionError"
proof -
  have h1: "(1::int) \<le> 2" by simp
  have h2: "\<exists>k\<in>{1..2}. terminal (outcome_of k (failing_envs k))"
    by (simp add: ints_1_2 failing_outcomes)
  have z: "request_count (init ''10.0.0.1'' 7 2 1000 500) = 0"
    by (simp add: init_def)
  from loss_division_unguarded [OF h1 h2, of "''10.0.0.1''" 7 1000 500 0 2000 "\<lambda>t. True" thread_delay
      "init ''10.0.0.1'' 7 2 1000 500"] z
  show ?thesis by simp
qed

end
